theory Spec2Isabelle
  imports Complex_Main "HOL-Library.Product_Lexorder"
begin

section \<open>WACC and terminal-growth model: the class \<open>FinancialModels\<close>\<close>

text \<open>
  The source is \<^verbatim>\<open>src/WACC_TerminalGrowth_Model.py\<close>. Its methods are pure functions of
  their arguments (the class has no fields), so each one becomes a HOL function.

  Numbers. The program computes in IEEE 754 binary64. The development reads the arithmetic
  in two ways. In the exact reading every finite number is a \<^typ>\<open>real\<close> and every
  operation is the exact one; it carries the statements that rounding does not touch: which
  call raises and with which error, which parameter is read, and the values of the
  demonstration calls. In the binary64 reading every operation is rounded to the nearest
  double, ties to even, with overflow to infinity and gradual underflow; it carries the
  statements about \<open>calculate_wacc\<close> that rounding decides. The sign of zero is outside
  both readings. In both, where Python raises the model returns an error, and where
  floating point yields \<open>inf\<close> or \<open>nan\<close> the model yields that special value.
\<close>

subsection \<open>Errors\<close>

text \<open>
  \<open>ZeroDivisionError\<close> is what Python's \<^verbatim>\<open>/\<close> raises on scalars when the divisor is
  zero. \<open>ValueError\<close> is what numpy's \<^verbatim>\<open>np.min\<close> and \<^verbatim>\<open>np.max\<close> raise on an array
  of size zero ("zero-size array to reduction operation ... which has no identity").
  \<open>InsufficientData\<close> is the typed error the specification names for a series that is
  too short; no statement of the source raises it.
\<close>

datatype py_error = ZeroDivisionError | ValueError | InsufficientData

text \<open>Python's true division on scalars.\<close>

definition py_truediv :: "real \<Rightarrow> real \<Rightarrow> py_error + real" where
  "py_truediv a b = (if b = 0 then Inl ZeroDivisionError else Inr (a / b))"

subsection \<open>The scalar formulas\<close>

text \<open>
  \<^verbatim>\<open>
  def calculate_wacc(self, equity_value, debt_value, cost_of_equity, cost_of_debt, tax_rate):
      total_value = equity_value + debt_value
      equity_weight = equity_value / total_value
      debt_weight = debt_value / total_value
      wacc = (equity_weight * cost_of_equity) + (debt_weight * cost_of_debt * (1 - tax_rate))
      return wacc
  \<close>
\<close>

definition calculate_wacc :: "real \<Rightarrow> real \<Rightarrow> real \<Rightarrow> real \<Rightarrow> real \<Rightarrow> py_error + real" where
  "calculate_wacc equity_value debt_value cost_of_equity cost_of_debt tax_rate =
     (let total_value = equity_value + debt_value in
      case py_truediv equity_value total_value of
        Inl e \<Rightarrow> Inl e
      | Inr equity_weight \<Rightarrow>
          (case py_truediv debt_value total_value of
             Inl e \<Rightarrow> Inl e
           | Inr debt_weight \<Rightarrow>
               Inr ((equity_weight * cost_of_equity)
                    + (debt_weight * cost_of_debt * (1 - tax_rate)))))"

text \<open>
  \<^verbatim>\<open>
  def calculate_cost_of_equity(self, risk_free_rate, beta, market_risk_premium):
      return risk_free_rate + (beta * market_risk_premium)
  \<close>
\<close>

definition calculate_cost_of_equity :: "real \<Rightarrow> real \<Rightarrow> real \<Rightarrow> real" where
  "calculate_cost_of_equity risk_free_rate beta market_risk_premium =
     risk_free_rate + (beta * market_risk_premium)"


text \<open>
  \<^verbatim>\<open>
  def calculate_terminal_growth_reinvestment(self, return_on_capital, reinvestment_rate):
      return return_on_capital * reinvestment_rate
  \<close>
\<close>

definition calculate_terminal_growth_reinvestment :: "real \<Rightarrow> real \<Rightarrow> real" where
  "calculate_terminal_growth_reinvestment return_on_capital reinvestment_rate =
     return_on_capital * reinvestment_rate"

text \<open>
  \<^verbatim>\<open>
  def calculate_reinvestment_rate(self, capex, depreciation, working_capital_change, ebit, tax_rate):
      return (capex - depreciation + working_capital_change) / (ebit * (1 - tax_rate))
  \<close>
\<close>

definition calculate_reinvestment_rate ::
  "real \<Rightarrow> real \<Rightarrow> real \<Rightarrow> real \<Rightarrow> real \<Rightarrow> py_error + real" where
  "calculate_reinvestment_rate capex depreciation working_capital_change ebit tax_rate =
     py_truediv (capex - depreciation + working_capital_change) (ebit * (1 - tax_rate))"

text \<open>
  \<^verbatim>\<open>
  def calculate_terminal_value(self, final_cash_flow, terminal_growth_rate, discount_rate):
      return final_cash_flow * (1 + terminal_growth_rate) / (discount_rate - terminal_growth_rate)
  \<close>
\<close>

definition calculate_terminal_value :: "real \<Rightarrow> real \<Rightarrow> real \<Rightarrow> py_error + real" where
  "calculate_terminal_value final_cash_flow terminal_growth_rate discount_rate =
     py_truediv (final_cash_flow * (1 + terminal_growth_rate))
                (discount_rate - terminal_growth_rate)"

subsection \<open>numpy's float64 values and ufuncs\<close>

text \<open>
  An element of a float64 array is a finite number, one of the two infinities, or
  \<open>nan\<close>. On arrays numpy's arithmetic never raises: a division by zero yields an
  infinity (or \<open>nan\<close> for \<open>0/0\<close>) and a warning. The operations below follow IEEE 754 on
  the special values and are exact on finite ones: this is the exact reading of numpy's
  arithmetic. It decides which call raises and what an empty array yields; the rounded
  values of the statistics are not stated in it.
\<close>

datatype npfloat = Fin real | PInf | NInf | NaN

fun np_negative :: "npfloat \<Rightarrow> npfloat" where
  "np_negative (Fin a) = Fin (- a)"
| "np_negative PInf = NInf"
| "np_negative NInf = PInf"
| "np_negative NaN = NaN"

fun np_add :: "npfloat \<Rightarrow> npfloat \<Rightarrow> npfloat" where
  "np_add NaN y = NaN"
| "np_add x NaN = NaN"
| "np_add (Fin a) (Fin b) = Fin (a + b)"
| "np_add PInf NInf = NaN"
| "np_add NInf PInf = NaN"
| "np_add PInf y = PInf"
| "np_add x PInf = PInf"
| "np_add NInf y = NInf"
| "np_add x NInf = NInf"

definition np_subtract :: "npfloat \<Rightarrow> npfloat \<Rightarrow> npfloat" where
  "np_subtract x y = np_add x (np_negative y)"

fun np_multiply :: "npfloat \<Rightarrow> npfloat \<Rightarrow> npfloat" where
  "np_multiply NaN y = NaN"
| "np_multiply x NaN = NaN"
| "np_multiply (Fin a) (Fin b) = Fin (a * b)"
| "np_multiply (Fin a) y = (if a = 0 then NaN else if 0 < a then y else np_negative y)"
| "np_multiply x (Fin b) = (if b = 0 then NaN else if 0 < b then x else np_negative x)"
| "np_multiply PInf y = y"
| "np_multiply NInf y = np_negative y"

fun np_true_divide :: "npfloat \<Rightarrow> npfloat \<Rightarrow> npfloat" where
  "np_true_divide NaN y = NaN"
| "np_true_divide x NaN = NaN"
| "np_true_divide (Fin a) (Fin b) =
     (if b = 0 then (if a = 0 then NaN else if 0 < a then PInf else NInf)
      else Fin (a / b))"
| "np_true_divide (Fin a) y = Fin 0"
| "np_true_divide x (Fin b) = (if 0 \<le> b then x else np_negative x)"
| "np_true_divide x y = NaN"

fun np_sqrt :: "npfloat \<Rightarrow> npfloat" where
  "np_sqrt (Fin a) = (if a < 0 then NaN else Fin (sqrt a))"
| "np_sqrt PInf = PInf"
| "np_sqrt NInf = NaN"
| "np_sqrt NaN = NaN"

text \<open>
  The order in which numpy sorts and compares: \<open>-inf\<close> below every finite number,
  \<open>inf\<close> above, and \<open>nan\<close> sorted after everything.
\<close>

fun np_key :: "npfloat \<Rightarrow> int \<times> real" where
  "np_key NInf = (-1, 0)"
| "np_key (Fin a) = (0, a)"
| "np_key PInf = (1, 0)"
| "np_key NaN = (2, 0)"

text \<open>\<^verbatim>\<open>np.minimum\<close> and \<^verbatim>\<open>np.maximum\<close> propagate \<open>nan\<close>.\<close>

definition np_minimum :: "npfloat \<Rightarrow> npfloat \<Rightarrow> npfloat" where
  "np_minimum x y =
     (if x = NaN \<or> y = NaN then NaN else if np_key x \<le> np_key y then x else y)"

definition np_maximum :: "npfloat \<Rightarrow> npfloat \<Rightarrow> npfloat" where
  "np_maximum x y =
     (if x = NaN \<or> y = NaN then NaN else if np_key x \<le> np_key y then y else x)"

subsection \<open>numpy's reductions on one-dimensional arrays\<close>

text \<open>
  \<^verbatim>\<open>np.array(historical_data)\<close> on a list of finite numbers. A list of Python integers
  gives an int64 array, whose difference \<^verbatim>\<open>data[1:] - data[:-1]\<close> wraps around at
  \<open>2^63\<close> before the true division converts to float64; that wrap-around, like rounding,
  is outside the exact reading, which takes the integers as the numbers they are.
\<close>

definition np_array :: "real list \<Rightarrow> npfloat list" where
  "np_array xs = map Fin xs"

text \<open>
  \<^verbatim>\<open>np.add.reduce\<close>, with identity \<open>0\<close>. numpy adds pairwise, in an order that its
  source fixes and this repository does not; with exact finite addition and the special
  values above the order of the additions does not change the result.
\<close>

definition np_sum :: "npfloat list \<Rightarrow> npfloat" where
  "np_sum xs = foldl np_add (Fin 0) xs"

text \<open>
  \<^verbatim>\<open>np.mean\<close> is \<^verbatim>\<open>umr_sum(arr) / rcount\<close>: on the empty array \<open>0.0 / 0\<close>, which is \<open>nan\<close>
  and a warning, not an exception.
\<close>

definition np_mean :: "npfloat list \<Rightarrow> npfloat" where
  "np_mean xs = np_true_divide (np_sum xs) (Fin (real (length xs)))"

text \<open>
  \<^verbatim>\<open>np.std\<close> with the default \<open>ddof = 0\<close>, as numpy's \<^verbatim>\<open>_var\<close> and \<^verbatim>\<open>_std\<close> compute it:
  \<^verbatim>\<open>
  arrmean = umr_sum(arr) / rcount
  x = arr - arrmean
  x = um.multiply(x, x)
  ret = umr_sum(x) / max(rcount - ddof, 0)
  ret = um.sqrt(ret)
  \<close>
\<close>

definition np_var :: "npfloat list \<Rightarrow> npfloat" where
  "np_var arr =
     (let rcount = Fin (real (length arr));
          arrmean = np_true_divide (np_sum arr) rcount;
          x = map (\<lambda>v. np_subtract v arrmean) arr;
          x = map (\<lambda>v. np_multiply v v) x
      in np_true_divide (np_sum x) rcount)"

definition np_std :: "npfloat list \<Rightarrow> npfloat" where
  "np_std arr = np_sqrt (np_var arr)"

text \<open>
  \<^verbatim>\<open>np.min\<close> and \<^verbatim>\<open>np.max\<close> reduce with \<^verbatim>\<open>np.minimum\<close> and \<^verbatim>\<open>np.maximum\<close>, which have
  no identity: on an array of size zero they raise \<open>ValueError\<close>.
\<close>

fun np_min :: "npfloat list \<Rightarrow> py_error + npfloat" where
  "np_min [] = Inl ValueError"
| "np_min (x # xs) = Inr (foldl np_minimum x xs)"

fun np_max :: "npfloat list \<Rightarrow> py_error + npfloat" where
  "np_max [] = Inl ValueError"
| "np_max (x # xs) = Inr (foldl np_maximum x xs)"

text \<open>
  A Python slice \<^verbatim>\<open>xs[start:stop]\<close> with both bounds given: a negative bound counts from
  the end, and bounds are clipped to the sequence.
\<close>

definition py_slice :: "int \<Rightarrow> int \<Rightarrow> 'a list \<Rightarrow> 'a list" where
  "py_slice start stop xs =
     (let n = int (length xs);
          lo = (if start < 0 then max 0 (n + start) else min n start);
          hi = (if stop < 0 then max 0 (n + stop) else min n stop)
      in take (nat (hi - lo)) (drop (nat lo) xs))"

text \<open>
  \<^verbatim>\<open>np.median\<close>, as numpy's \<^verbatim>\<open>_median\<close> computes it on a one-dimensional float array:
  \<^verbatim>\<open>
  part = partition(a, kth)
  index = part.shape[axis] // 2
  if part.shape[axis] % 2 == 1:
      indexer[axis] = slice(index, index+1)
  else:
      indexer[axis] = slice(index-1, index+1)
  rout = mean(part[indexer])
  if supports_nans and sz > 0:
      rout = _median_nancheck(part, rout, axis)   # nan if part[-1] is nan
  \<close>
  \<open>partition\<close> puts the elements at the positions \<open>kth\<close> (the middle ones and the last)
  where a full sort would put them; only these positions are read, so the model sorts.
\<close>

definition np_median :: "npfloat list \<Rightarrow> npfloat" where
  "np_median a =
     (let part = sort_key np_key a;
          sz = length part;
          index = int (sz div 2);
          indexer = (if sz mod 2 = 1 then py_slice index (index + 1)
                     else py_slice (index - 1) (index + 1));
          rout = np_mean (indexer part)
      in if 0 < sz \<and> last part = NaN then NaN else rout)"

subsection \<open>The historical growth analysis\<close>

text \<open>
  \<^verbatim>\<open>
  def historical_growth_analysis(self, historical_data, periods=5):
      data = np.array(historical_data)
      growth_rates = (data[1:] - data[:-1]) / data[:-1]
      return {
          'mean_growth': np.mean(growth_rates),
          'median_growth': np.median(growth_rates),
          'std_dev': np.std(growth_rates),
          'min_growth': np.min(growth_rates),
          'max_growth': np.max(growth_rates)
      }
  \<close>
  The returned dictionary has a fixed set of keys, so it is a record. The entries are
  evaluated in the order written: the first three cannot raise, then \<^verbatim>\<open>np.min\<close> and
  \<^verbatim>\<open>np.max\<close>. \<^verbatim>\<open>data[1:]\<close> is \<open>drop 1\<close>, \<^verbatim>\<open>data[:-1]\<close> is \<open>butlast\<close>; the two slices
  have the same length, so the element-wise operations pair them up. The optional
  \<open>periods\<close> is \<open>None\<close> when the caller omits it (the default is then \<open>5\<close>).
\<close>

record growth_stats =
  mean_growth :: npfloat
  median_growth :: npfloat
  std_dev :: npfloat
  min_growth :: npfloat
  max_growth :: npfloat

definition historical_growth_analysis :: "real list \<Rightarrow> int option \<Rightarrow> py_error + growth_stats" where
  "historical_growth_analysis historical_data periods =
     (let data = np_array historical_data;
          growth_rates = map2 np_true_divide
                           (map2 np_subtract (drop 1 data) (butlast data)) (butlast data);
          mean_v = np_mean growth_rates;
          median_v = np_median growth_rates;
          std_v = np_std growth_rates
      in case np_min growth_rates of
           Inl e \<Rightarrow> Inl e
         | Inr min_v \<Rightarrow>
             (case np_max growth_rates of
                Inl e \<Rightarrow> Inl e
              | Inr max_v \<Rightarrow>
                  Inr \<lparr>mean_growth = mean_v, median_growth = median_v, std_dev = std_v,
                       min_growth = min_v, max_growth = max_v\<rparr>))"

subsection \<open>IEEE 754 binary64 arithmetic\<close>

text \<open>
  Python's float and numpy's float64 are the same format, so the type \<^typ>\<open>npfloat\<close>
  serves both. A double is \<open>m * 2^(e - 52)\<close> with an integer mantissa of at most 53 bits
  and \<open>e \<ge> -1022\<close>. Rounding a real \<open>x\<close> takes \<open>e\<close> from the binary exponent of
  \<open>x\<close> (not below \<open>-1022\<close>, where the subnormal numbers start), rounds
  \<open>x / 2^(e - 52)\<close> to the nearest integer, ties to the even one, and overflows to an
  infinity when the result reaches \<open>2^1024\<close>. The binary exponent is found by halving
  or doubling, at most 1100 times: beyond that the number overflows or lies below the
  subnormal range, where the exponent is \<open>-1022\<close> anyway.
\<close>

definition round_half_even :: "real \<Rightarrow> int" where
  "round_half_even q =
     (let f = \<lfloor>q\<rfloor>; d = q - of_int f
      in if d < 1/2 then f else if 1/2 < d then f + 1 else if even f then f else f + 1)"

fun binary_exponent :: "nat \<Rightarrow> real \<Rightarrow> int" where
  "binary_exponent 0 x = 0"
| "binary_exponent (Suc n) x =
     (if x < 1 then binary_exponent n (2 * x) - 1
      else if 2 \<le> x then binary_exponent n (x / 2) + 1
      else 0)"

definition f64_exponent :: "real \<Rightarrow> int" where
  "f64_exponent x = max (binary_exponent 1100 \<bar>x\<bar>) (- 1022)"

definition fl :: "real \<Rightarrow> npfloat" where
  "fl x =
     (if x = 0 then Fin 0
      else let e = f64_exponent x;
               m = round_half_even (x / 2 powi (e - 52));
               r = of_int m * 2 powi (e - 52)
           in if 2 ^ 1024 \<le> \<bar>r\<bar> then (if 0 < x then PInf else NInf) else Fin r)"


text \<open>
  Python's \<^verbatim>\<open>+\<close>, \<^verbatim>\<open>-\<close> and \<^verbatim>\<open>*\<close> on floats are the correctly rounded IEEE
  operations and never raise; they produce \<open>inf\<close> on overflow and \<open>nan\<close> for
  \<open>inf - inf\<close> or \<open>0 * inf\<close>.
\<close>

fun f64_add :: "npfloat \<Rightarrow> npfloat \<Rightarrow> npfloat" where
  "f64_add NaN y = NaN"
| "f64_add x NaN = NaN"
| "f64_add (Fin a) (Fin b) = fl (a + b)"
| "f64_add PInf NInf = NaN"
| "f64_add NInf PInf = NaN"
| "f64_add PInf y = PInf"
| "f64_add x PInf = PInf"
| "f64_add NInf y = NInf"
| "f64_add x NInf = NInf"

definition f64_sub :: "npfloat \<Rightarrow> npfloat \<Rightarrow> npfloat" where
  "f64_sub x y = f64_add x (np_negative y)"

fun f64_mul :: "npfloat \<Rightarrow> npfloat \<Rightarrow> npfloat" where
  "f64_mul NaN y = NaN"
| "f64_mul x NaN = NaN"
| "f64_mul (Fin a) (Fin b) = fl (a * b)"
| "f64_mul (Fin a) y = (if a = 0 then NaN else if 0 < a then y else np_negative y)"
| "f64_mul x (Fin b) = (if b = 0 then NaN else if 0 < b then x else np_negative x)"
| "f64_mul PInf y = y"
| "f64_mul NInf y = np_negative y"

text \<open>
  The IEEE quotient, and Python's \<^verbatim>\<open>/\<close> on floats, which raises \<open>ZeroDivisionError\<close>
  when the divisor is zero and is the IEEE quotient otherwise.
\<close>

fun f64_divide :: "npfloat \<Rightarrow> npfloat \<Rightarrow> npfloat" where
  "f64_divide NaN y = NaN"
| "f64_divide x NaN = NaN"
| "f64_divide (Fin a) (Fin b) =
     (if b = 0 then (if a = 0 then NaN else if 0 < a then PInf else NInf)
      else fl (a / b))"
| "f64_divide (Fin a) y = Fin 0"
| "f64_divide x (Fin b) = (if 0 \<le> b then x else np_negative x)"
| "f64_divide x y = NaN"

definition f64_truediv :: "npfloat \<Rightarrow> npfloat \<Rightarrow> py_error + npfloat" where
  "f64_truediv x y = (if y = Fin 0 then Inl ZeroDivisionError else Inr (f64_divide x y))"

text \<open>
  \<open>calculate_wacc\<close> as CPython executes it on floats: the body of the method, each
  operation rounded. The integer literal in \<^verbatim>\<open>1 - tax_rate\<close> is converted to \<open>1.0\<close>.
  Integer arguments behave as the floats of the same value as long as they and their sum
  stay below \<open>2^53\<close> in magnitude.
\<close>

definition calculate_wacc_f64 ::
  "npfloat \<Rightarrow> npfloat \<Rightarrow> npfloat \<Rightarrow> npfloat \<Rightarrow> npfloat \<Rightarrow> py_error + npfloat" where
  "calculate_wacc_f64 equity_value debt_value cost_of_equity cost_of_debt tax_rate =
     (let total_value = f64_add equity_value debt_value in
      case f64_truediv equity_value total_value of
        Inl e \<Rightarrow> Inl e
      | Inr equity_weight \<Rightarrow>
          (case f64_truediv debt_value total_value of
             Inl e \<Rightarrow> Inl e
           | Inr debt_weight \<Rightarrow>
               Inr (f64_add (f64_mul equity_weight cost_of_equity)
                      (f64_mul (f64_mul debt_weight cost_of_debt)
                         (f64_sub (Fin 1) tax_rate)))))"


text \<open>
  The vocabulary of the rounding-error analysis: the unit roundoff \<open>2^-53\<close>, a result
  \<open>r\<close> within relative error \<open>p\<close> of \<open>x\<close>, and a number that is zero or of magnitude
  between \<open>2^lo\<close> and \<open>2^hi\<close>.
\<close>

definition unit_roundoff :: real where
  "unit_roundoff = 2 powi (- 53)"

definition rel_err :: "real \<Rightarrow> real \<Rightarrow> real \<Rightarrow> bool" where
  "rel_err p x r \<longleftrightarrow> \<bar>r - x\<bar> \<le> p * \<bar>x\<bar>"

definition in_range :: "int \<Rightarrow> int \<Rightarrow> real \<Rightarrow> bool" where
  "in_range lo hi x \<longleftrightarrow> x = 0 \<or> (2 powi lo \<le> \<bar>x\<bar> \<and> \<bar>x\<bar> \<le> 2 powi hi)"

section \<open>Properties of the scalar formulas in the exact reading\<close>

text \<open>
  Claim C7 as the specification states it, refuted: the call of the demonstration driver,
  \<open>calculate_wacc(1000000, 500000, 0.10, 0.05, 0.25)\<close>, does return
  \<open>0.10 * (2/3) + 0.05 * 0.75 * (1/3)\<close>, but that number is \<open>19/240\<close>, which is not
  \<open>0.0792\<close>.
\<close>

theorem calculate_wacc_example_not_exact:
  "\<not> (calculate_wacc 1000000 500000 (10/100) (5/100) (25/100)
         = Inr ((10/100) * (2/3) + (5/100) * (75/100) * (1/3))
       \<and> (10/100) * (2/3) + (5/100) * (75/100) * (1/3) = (792/10000 :: real))"
  by simp

text \<open>
  Claim C7, amended. The same call returns \<open>0.10 * (2/3) + 0.05 * 0.75 * (1/3)\<close>, which
  is \<open>19/240\<close>; it agrees with \<open>0.0792\<close> to four decimal places (the distance is below
  \<open>0.00005\<close>), the precision at which the driver prints it as 7.92 percent.
\<close>

theorem calculate_wacc_example_rounded:
  "calculate_wacc 1000000 500000 (10/100) (5/100) (25/100)
     = Inr ((10/100) * (2/3) + (5/100) * (75/100) * (1/3))
   \<and> (10/100) * (2/3) + (5/100) * (75/100) * (1/3) = (19/240 :: real)
   \<and> \<bar>(10/100) * (2/3) + (5/100) * (75/100) * (1/3) - 792/10000\<bar> < (5/100000 :: real)"
  by (simp add: calculate_wacc_def py_truediv_def)


text \<open>
  Claim C5. When \<open>discount_rate\<close> differs from \<open>terminal_growth_rate\<close>,
  \<open>calculate_terminal_value\<close> returns
  \<open>final_cash_flow * (1 + terminal_growth_rate) / (discount_rate - terminal_growth_rate)\<close>;
  when the two are equal it fails with Python's division by zero.
\<close>

theorem calculate_terminal_value_gordon:
  "(discount_rate \<noteq> terminal_growth_rate \<longrightarrow>
      calculate_terminal_value final_cash_flow terminal_growth_rate discount_rate
        = Inr (final_cash_flow * (1 + terminal_growth_rate)
               / (discount_rate - terminal_growth_rate)))
   \<and> (discount_rate = terminal_growth_rate \<longrightarrow>
      calculate_terminal_value final_cash_flow terminal_growth_rate discount_rate
        = Inl ZeroDivisionError)"
  by (simp add: calculate_terminal_value_def py_truediv_def)

theorem calculate_terminal_value_gordon_witness:
  "(8/100 :: real) \<noteq> 3/100
   \<and> calculate_terminal_value 100 (3/100) (8/100) = Inr 2060
   \<and> calculate_terminal_value 100 (3/100) (3/100) = Inl ZeroDivisionError"
proof -
  have h: "(8/100 :: real) \<noteq> 3/100" by simp
  from calculate_terminal_value_gordon [of "8/100" "3/100" 100]
       calculate_terminal_value_gordon [of "3/100" "3/100" 100] h
  show ?thesis by simp
qed

section \<open>Properties of binary64 rounding\<close>

subsection \<open>Evaluating a rounding\<close>


lemma round_half_even_bounds:
  "\<bar>of_int (round_half_even q) - q\<bar> \<le> 1/2"
  unfolding round_half_even_def Let_def
  by (auto simp: abs_if) linarith+

lemma round_half_even_abs_le:
  assumes "\<bar>q\<bar> \<le> of_int n"
  shows "\<bar>round_half_even q\<bar> \<le> n"
proof -
  have "q \<le> of_int n" and "- of_int n \<le> q"
    using assms by linarith+
  then have "\<lfloor>q\<rfloor> \<le> n" and "- n \<le> \<lfloor>q\<rfloor>" and "\<lfloor>q\<rfloor> = n \<longrightarrow> q = of_int n"
    by (simp_all add: floor_le_iff le_floor_iff) linarith
  then show ?thesis
    unfolding round_half_even_def Let_def
    by (auto simp: abs_if) 
qed

lemma binary_exponent_spec:
  assumes "0 < x"
  shows "(2 powi binary_exponent n x \<le> x \<or> binary_exponent n x = - int n)
         \<and> (x < 2 powi (binary_exponent n x + 1) \<or> binary_exponent n x = int n)"
  using assms
proof (induction n arbitrary: x)
  case 0
  then show ?case by simp
next
  case (Suc n)
  show ?case
  proof (cases "x < 1")
    case True
    define k where "k = binary_exponent n (2 * x)"
    have ih: "(2 powi k \<le> 2 * x \<or> k = - int n) \<and> (2 * x < 2 powi (k + 1) \<or> k = int n)"
      unfolding k_def using Suc.prems by (intro Suc.IH) simp
    have res: "binary_exponent (Suc n) x = k - 1"
      using True by (simp add: k_def)
    have p1: "(2::real) powi k = 2 * 2 powi (k - 1)"
      using power_int_add [of "2::real" 1 "k - 1"] by simp
    have p2: "(2::real) powi (k + 1) = 2 * 2 powi k"
      using power_int_add [of "2::real" 1 k] by (simp add: add.commute)
    have lo: "2 powi (k - 1) \<le> x \<or> k - 1 = - int (Suc n)"
      using ih p1 by auto
    have hi: "x < 2 powi (k - 1 + 1)"
    proof (cases "2 * x < 2 powi (k + 1)")
      case True
      then show ?thesis using p2 by simp
    next
      case False
      with ih have "k = int n" by simp
      then have "(1::real) \<le> 2 powi k" by simp
      with \<open>x < 1\<close> show ?thesis by simp
    qed
    from lo hi show ?thesis
      by (simp only: res simp_thms)
  next
    case False
    show ?thesis
    proof (cases "2 \<le> x")
      case True
      define k where "k = binary_exponent n (x / 2)"
      have ih: "(2 powi k \<le> x / 2 \<or> k = - int n) \<and> (x / 2 < 2 powi (k + 1) \<or> k = int n)"
        unfolding k_def using Suc.prems by (intro Suc.IH) simp
      have res: "binary_exponent (Suc n) x = k + 1"
        using True False by (simp add: k_def)
      have p1: "(2::real) powi (k + 1) = 2 * 2 powi k"
        using power_int_add [of "2::real" 1 k] by (simp add: add.commute)
      have p2: "(2::real) powi (k + 1 + 1) = 2 * 2 powi (k + 1)"
        using power_int_add [of "2::real" 1 "k + 1"] by (simp add: add.commute)
      have lo: "2 powi (k + 1) \<le> x"
      proof (cases "2 powi k \<le> x / 2")
        case True
        then show ?thesis using p1 by simp
      next
        case False
        with ih have "k = - int n" by simp
        then have "(2::real) powi k \<le> 1"
          by (simp add: power_int_minus inverse_le_1_iff)
        with \<open>2 \<le> x\<close> p1 show ?thesis by simp
      qed
      have hi: "x < 2 powi (k + 1 + 1) \<or> k + 1 = int (Suc n)"
        using ih p2 p1 by auto
      from lo hi show ?thesis
        by (simp only: res simp_thms)
    next
      case False
      with \<open>\<not> x < 1\<close> show ?thesis by simp
    qed
  qed
qed

lemma f64_exponent_props:
  assumes "x \<noteq> 0"
  shows "- 1022 \<le> f64_exponent x"
    and "f64_exponent x = - 1022 \<or> 2 powi f64_exponent x \<le> \<bar>x\<bar>"
    and "\<bar>x\<bar> < 2 powi (f64_exponent x + 1) \<or> f64_exponent x = 1100"
proof -
  define k where "k = binary_exponent 1100 \<bar>x\<bar>"
  have pos: "0 < \<bar>x\<bar>" using assms by simp
  have spec: "(2 powi k \<le> \<bar>x\<bar> \<or> k = - 1100) \<and> (\<bar>x\<bar> < 2 powi (k + 1) \<or> k = 1100)"
    using binary_exponent_spec [OF pos, of 1100] by (simp add: k_def)
  have e: "f64_exponent x = max k (- 1022)"
    by (simp add: f64_exponent_def k_def)
  show "- 1022 \<le> f64_exponent x"
    by (simp add: e)
  show "f64_exponent x = - 1022 \<or> 2 powi f64_exponent x \<le> \<bar>x\<bar>"
  proof (cases "k \<le> - 1022")
    case True
    then show ?thesis by (simp add: e)
  next
    case False
    then have "max k (- 1022) = k" and "k \<noteq> - 1100" by simp_all
    with spec show ?thesis by (simp only: e simp_thms)
  qed
  show "\<bar>x\<bar> < 2 powi (f64_exponent x + 1) \<or> f64_exponent x = 1100"
  proof (cases "k \<le> - 1022")
    case True
    then have k: "k \<noteq> 1100" and m: "max k (- 1022) = - 1022" by simp_all
    with spec have "\<bar>x\<bar> < 2 powi (k + 1)" by simp
    also have "(2::real) powi (k + 1) \<le> 2 powi (- 1022 + 1)"
      using True by (intro power_int_increasing) simp_all
    finally show ?thesis by (simp only: e m simp_thms)
  next
    case False
    then have "max k (- 1022) = k" by simp
    with spec show ?thesis by (simp only: e)
  qed
qed

lemma f64_exponent_eq:
  assumes lo: "2 powi e \<le> \<bar>x\<bar>" and hi: "\<bar>x\<bar> < 2 powi (e + 1)"
    and e: "- 1022 \<le> e" "e \<le> 1022"
  shows "f64_exponent x = e"
proof -
  define f where "f = f64_exponent x"
  have p: "0 < (2::real) powi e" by simp
  have x0: "x \<noteq> 0"
  proof
    assume "x = 0"
    with lo have "(2::real) powi e \<le> 0" by simp
    with p show False by linarith
  qed
  note props = f64_exponent_props [OF x0, folded f_def]
  have "f \<le> e"
  proof (rule ccontr)
    assume "\<not> f \<le> e"
    then have "e + 1 \<le> f" and "f \<noteq> - 1022" using e by simp_all
    then have "(2::real) powi (e + 1) \<le> 2 powi f"
      by (intro power_int_increasing) simp_all
    moreover have "2 powi f \<le> \<bar>x\<bar>"
      using props(2) \<open>f \<noteq> - 1022\<close> by simp
    ultimately show False using hi by linarith
  qed
  moreover have "e \<le> f"
  proof (rule ccontr)
    assume "\<not> e \<le> f"
    then have "f + 1 \<le> e" by simp
    then have "(2::real) powi (f + 1) \<le> 2 powi e"
      by (intro power_int_increasing) simp_all
    moreover have "f \<noteq> 1100" using \<open>f \<le> e\<close> e by simp
    then have "\<bar>x\<bar> < 2 powi (f + 1)"
      using props(3) by simp
    ultimately show False using lo by linarith
  qed
  ultimately show ?thesis by (simp add: f_def)
qed

lemma fl_eqI:
  assumes lo: "2 powi e \<le> \<bar>x\<bar>" and hi: "\<bar>x\<bar> < 2 powi (e + 1)"
    and e: "- 1022 \<le> e" "e \<le> 1022"
    and m: "round_half_even (x / 2 powi (e - 52)) = m"
    and r: "r = of_int m * 2 powi (e - 52)"
  shows "fl x = Fin r"
proof -
  have p: "0 < (2::real) powi e" by simp
  have x0: "x \<noteq> 0"
  proof
    assume "x = 0"
    with lo have "(2::real) powi e \<le> 0" by simp
    with p show False by linarith
  qed
  have ex: "f64_exponent x = e"
    using lo hi e by (rule f64_exponent_eq)
  have u: "0 < (2::real) powi (e - 52)" by simp
  have "\<bar>x\<bar> / 2 powi (e - 52) \<le> 2 powi (e + 1) / 2 powi (e - 52)"
    using hi u by (simp add: divide_right_mono)
  also have "\<dots> = 2 powi 53"
    by (simp add: power_int_diff [symmetric])
  finally have "\<bar>x / 2 powi (e - 52)\<bar> \<le> of_int (2 ^ 53)"
    by simp
  then have "\<bar>m\<bar> \<le> 2 ^ 53"
    using round_half_even_abs_le m by blast
  then have "\<bar>of_int m :: real\<bar> \<le> 2 ^ 53"
    by (metis of_int_abs of_int_le_iff of_int_numeral of_int_power)
  then have "\<bar>r\<bar> \<le> 2 ^ 53 * 2 powi (e - 52)"
    unfolding r abs_mult using u by (simp add: mult_right_mono)
  also have "\<dots> = 2 powi (e + 1)"
    using power_int_add [of "2::real" 53 "e - 52"] by (simp add: add.commute)
  also have "\<dots> \<le> 2 powi 1023"
    using e by (intro power_int_increasing) simp_all
  also have "\<dots> < 2 ^ 1024" by simp
  finally have "\<not> 2 ^ 1024 \<le> \<bar>r\<bar>" by simp
  then show ?thesis
    using x0 by (simp add: fl_def ex Let_def m r [symmetric])
qed

lemma fl_zero: "fl 0 = Fin 0"
  by (simp add: fl_def)




subsection \<open>The error of a rounding\<close>



text \<open>The shape of every rounding: mantissa times unit, within half a unit.\<close>

lemma fl_cases:
  assumes "x \<noteq> 0"
  obtains m e where "- 1022 \<le> e"
    and "e = - 1022 \<or> 2 powi e \<le> \<bar>x\<bar>"
    and "\<bar>of_int m * 2 powi (e - 52) - x\<bar> \<le> 2 powi (e - 53)"
    and "m = round_half_even (x / 2 powi (e - 52))"
    and "fl x = (if 2 ^ 1024 \<le> \<bar>of_int m * 2 powi (e - 52) :: real\<bar>
                 then (if 0 < x then PInf else NInf)
                 else Fin (of_int m * 2 powi (e - 52)))"
proof -
  define e where "e = f64_exponent x"
  define m where "m = round_half_even (x / 2 powi (e - 52))"
  have u: "0 < (2::real) powi (e - 52)" by simp
  have "\<bar>of_int m - x / 2 powi (e - 52)\<bar> \<le> 1/2"
    unfolding m_def by (rule round_half_even_bounds)
  then have "\<bar>of_int m - x / 2 powi (e - 52)\<bar> * 2 powi (e - 52) \<le> 1/2 * 2 powi (e - 52)"
    using u by (intro mult_right_mono) simp_all
  moreover have "\<bar>of_int m - x / 2 powi (e - 52)\<bar> * 2 powi (e - 52)
                   = \<bar>of_int m * 2 powi (e - 52) - x\<bar>"
  proof -
    have "\<bar>of_int m - x / 2 powi (e - 52)\<bar> * 2 powi (e - 52)
            = \<bar>(of_int m - x / 2 powi (e - 52)) * 2 powi (e - 52)\<bar>"
      using u by (simp add: abs_mult)
    also have "(of_int m - x / 2 powi (e - 52)) * 2 powi (e - 52)
                 = of_int m * 2 powi (e - 52) - x"
      using u by (simp add: field_simps)
    finally show ?thesis .
  qed
  moreover have "1/2 * (2::real) powi (e - 52) = 2 powi (e - 53)"
    using power_int_add [of "2::real" "-1" "e - 52"] by (simp add: add.commute)
  ultimately have err: "\<bar>of_int m * 2 powi (e - 52) - x\<bar> \<le> 2 powi (e - 53)"
    by simp
  show ?thesis
  proof (rule that [of e m])
    show "- 1022 \<le> e" and "e = - 1022 \<or> 2 powi e \<le> \<bar>x\<bar>"
      using f64_exponent_props(1,2) [OF assms] by (simp_all add: e_def)
    show "\<bar>of_int m * 2 powi (e - 52) - x\<bar> \<le> 2 powi (e - 53)" by (rule err)
    show "m = round_half_even (x / 2 powi (e - 52))" by (rule m_def)
    show "fl x = (if 2 ^ 1024 \<le> \<bar>of_int m * 2 powi (e - 52) :: real\<bar>
                 then (if 0 < x then PInf else NInf)
                 else Fin (of_int m * 2 powi (e - 52)))"
      using assms by (simp add: fl_def Let_def e_def [symmetric] m_def [symmetric])
  qed
qed

lemma fl_error:
  assumes "\<bar>x\<bar> < 2 powi 1023"
  shows "\<exists>r. fl x = Fin r \<and> \<bar>r - x\<bar> \<le> 2 powi (- 53) * max \<bar>x\<bar> (2 powi (- 1022))"
proof (cases "x = 0")
  case True
  then show ?thesis by (simp add: fl_zero)
next
  case False
  then obtain m e where e: "- 1022 \<le> e" "e = - 1022 \<or> 2 powi e \<le> \<bar>x\<bar>"
    and err: "\<bar>of_int m * 2 powi (e - 52) - x\<bar> \<le> 2 powi (e - 53)"
    and flx: "fl x = (if 2 ^ 1024 \<le> \<bar>of_int m * 2 powi (e - 52) :: real\<bar>
                 then (if 0 < x then PInf else NInf)
                 else Fin (of_int m * 2 powi (e - 52)))"
    by (rule fl_cases)
  define r :: real where "r = of_int m * 2 powi (e - 52)"
  have e_le: "e \<le> 1022"
  proof (rule ccontr)
    assume "\<not> e \<le> 1022"
    then have "1023 \<le> e" and "e \<noteq> - 1022" by simp_all
    then have "(2::real) powi 1023 \<le> 2 powi e"
      by (intro power_int_increasing) simp_all
    moreover have "2 powi e \<le> \<bar>x\<bar>"
      using e(2) \<open>e \<noteq> - 1022\<close> by simp
    ultimately show False using assms by linarith
  qed
  have "\<bar>r\<bar> \<le> \<bar>x\<bar> + 2 powi (e - 53)"
    using err by (simp add: r_def abs_if split: if_splits)
  also have "\<dots> < 2 powi 1023 + 2 powi (e - 53)"
    using assms by simp
  also have "\<dots> \<le> 2 powi 1023 + 2 powi 1023"
    using e_le by (intro add_left_mono power_int_increasing) simp_all
  also have "\<dots> = 2 ^ 1024" by simp
  finally have "\<not> 2 ^ 1024 \<le> \<bar>r\<bar>" by simp
  then have fl_r: "fl x = Fin r"
    using flx by (simp add: r_def)
  have "(2::real) powi (e - 53) \<le> 2 powi (- 53) * max \<bar>x\<bar> (2 powi (- 1022))"
  proof -
    have split: "(2::real) powi (e - 53) = 2 powi (- 53) * 2 powi e"
      using power_int_add [of "2::real" "- 53" e] by (simp add: add.commute)
    have "(2::real) powi e \<le> max \<bar>x\<bar> (2 powi (- 1022))"
      using e(2) by auto
    then show ?thesis
      unfolding split by (intro mult_left_mono) simp_all
  qed
  with err have "\<bar>r - x\<bar> \<le> 2 powi (- 53) * max \<bar>x\<bar> (2 powi (- 1022))"
    by (simp add: r_def)
  with fl_r show ?thesis by blast
qed

subsection \<open>Doubles are multiples of the smallest subnormal; scaling by a power of two\<close>






subsection \<open>Relative errors and magnitudes through the operations\<close>

lemma unit_roundoff_bounds: "0 < unit_roundoff" "unit_roundoff \<le> 1 / 1024"
  by (simp_all add: unit_roundoff_def power_int_minus)

lemma unit_roundoff_sq: "unit_roundoff * unit_roundoff \<le> unit_roundoff / 1024"
  using mult_left_mono [OF unit_roundoff_bounds(2), of unit_roundoff] unit_roundoff_bounds(1)
  by simp

lemma rel_err_refl: "0 \<le> p \<Longrightarrow> rel_err p x x"
  by (simp add: rel_err_def)

lemma rel_err_mono: "rel_err p x r \<Longrightarrow> p \<le> q \<Longrightarrow> rel_err q x r"
  unfolding rel_err_def
  by (meson abs_ge_zero mult_right_mono order_trans)

lemma rel_err_zero: "rel_err p 0 r \<Longrightarrow> r = 0"
  by (simp add: rel_err_def)

lemma rel_err_abs_le:
  assumes "rel_err p x r"
  shows "\<bar>r\<bar> \<le> (1 + p) * \<bar>x\<bar>"
proof -
  have "\<bar>r\<bar> \<le> \<bar>x\<bar> + \<bar>r - x\<bar>" by simp
  also have "\<dots> \<le> \<bar>x\<bar> + p * \<bar>x\<bar>"
    using assms by (simp add: rel_err_def)
  finally show ?thesis by (simp add: algebra_simps)
qed

lemma rel_err_abs_ge:
  assumes "rel_err p x r"
  shows "(1 - p) * \<bar>x\<bar> \<le> \<bar>r\<bar>"
proof -
  have "\<bar>x\<bar> \<le> \<bar>r\<bar> + \<bar>r - x\<bar>" by simp
  also have "\<dots> \<le> \<bar>r\<bar> + p * \<bar>x\<bar>"
    using assms by (simp add: rel_err_def)
  finally show ?thesis by (simp add: algebra_simps)
qed

lemma rel_err_mult:
  assumes "rel_err p x r" and "rel_err q y s" and "0 \<le> p"
  shows "rel_err (p + q + p * q) (x * y) (r * s)"
proof -
  have "r * s - x * y = (r - x) * s + x * (s - y)"
    by (simp add: algebra_simps)
  then have "\<bar>r * s - x * y\<bar> \<le> \<bar>r - x\<bar> * \<bar>s\<bar> + \<bar>x\<bar> * \<bar>s - y\<bar>"
    by (metis abs_mult abs_triangle_ineq)
  also have "\<bar>r - x\<bar> * \<bar>s\<bar> \<le> (p * \<bar>x\<bar>) * ((1 + q) * \<bar>y\<bar>)"
    using assms(1) rel_err_abs_le [OF assms(2)] assms(3)
    by (intro mult_mono) (simp_all add: rel_err_def)
  also have "\<bar>x\<bar> * \<bar>s - y\<bar> \<le> \<bar>x\<bar> * (q * \<bar>y\<bar>)"
    using assms(2) by (intro mult_left_mono) (simp_all add: rel_err_def)
  finally have "\<bar>r * s - x * y\<bar> \<le> (p * \<bar>x\<bar>) * ((1 + q) * \<bar>y\<bar>) + \<bar>x\<bar> * (q * \<bar>y\<bar>)"
    by simp
  also have "\<dots> = (p + q + p * q) * \<bar>x * y\<bar>"
    by (simp add: algebra_simps abs_mult)
  finally show ?thesis by (simp add: rel_err_def)
qed

lemma rel_err_trans:
  assumes "rel_err p x r" and "rel_err q r r'" and "0 \<le> q"
  shows "rel_err (p + q + p * q) x r'"
proof -
  have "\<bar>r' - x\<bar> \<le> \<bar>r' - r\<bar> + \<bar>r - x\<bar>" by simp
  also have "\<bar>r' - r\<bar> \<le> q * \<bar>r\<bar>"
    using assms(2) by (simp add: rel_err_def)
  also have "q * \<bar>r\<bar> \<le> q * ((1 + p) * \<bar>x\<bar>)"
    using rel_err_abs_le [OF assms(1)] assms(3) by (intro mult_left_mono)
  also have "\<bar>r - x\<bar> \<le> p * \<bar>x\<bar>"
    using assms(1) by (simp add: rel_err_def)
  finally have "\<bar>r' - x\<bar> \<le> q * ((1 + p) * \<bar>x\<bar>) + p * \<bar>x\<bar>"
    by simp
  also have "\<dots> = (p + q + p * q) * \<bar>x\<bar>"
    by (simp add: algebra_simps)
  finally show ?thesis by (simp add: rel_err_def)
qed

lemma rel_err_divisor:
  assumes "rel_err q y s" and "0 \<le> q" and "q \<le> 1 / 2" and "y \<noteq> 0"
  shows "rel_err (2 * q) (x / y) (x / s)" and "s \<noteq> 0"
proof -
  have ge: "(1 - q) * \<bar>y\<bar> \<le> \<bar>s\<bar>"
    using assms(1) by (rule rel_err_abs_ge)
  have ypos: "0 < \<bar>y\<bar>" using assms(4) by simp
  have "0 < (1 - q) * \<bar>y\<bar>"
    using assms(3) ypos by simp
  with ge have spos: "0 < \<bar>s\<bar>" by linarith
  then show s0: "s \<noteq> 0" by auto
  have half: "\<bar>y\<bar> / 2 \<le> \<bar>s\<bar>"
  proof -
    have "\<bar>y\<bar> / 2 \<le> (1 - q) * \<bar>y\<bar>"
      using assms(3) ypos by (simp add: field_simps)
    with ge show ?thesis by linarith
  qed
  have "x / s - x / y = x * (y - s) / (s * y)"
    using s0 assms(4) by (simp add: field_simps)
  then have "\<bar>x / s - x / y\<bar> = \<bar>x\<bar> * \<bar>s - y\<bar> / (\<bar>s\<bar> * \<bar>y\<bar>)"
    by (simp add: abs_mult abs_minus_commute)
  also have "\<dots> \<le> \<bar>x\<bar> * (q * \<bar>y\<bar>) / (\<bar>s\<bar> * \<bar>y\<bar>)"
    using assms(1) spos ypos
    by (intro divide_right_mono mult_left_mono) (simp_all add: rel_err_def)
  also have "\<dots> = q * \<bar>x\<bar> / \<bar>s\<bar>"
    using ypos by simp
  also have "\<dots> \<le> q * \<bar>x\<bar> / (\<bar>y\<bar> / 2)"
    using half ypos assms(2) by (intro divide_left_mono) simp_all
  also have "\<dots> = 2 * q * \<bar>x / y\<bar>"
    by simp
  finally show "rel_err (2 * q) (x / y) (x / s)"
    by (simp add: rel_err_def)
qed

lemma in_range_widen:
  assumes "in_range l h x" and "l' \<le> l" and "h \<le> h'"
  shows "in_range l' h' x"
proof -
  have "(2::real) powi l' \<le> 2 powi l" and "(2::real) powi h \<le> 2 powi h'"
    using assms(2,3) by (simp_all add: power_int_increasing)
  then show ?thesis
    using assms(1) unfolding in_range_def by (elim disjE) auto
qed

lemma in_range_mult:
  assumes "in_range l1 h1 x" and "in_range l2 h2 y"
  shows "in_range (l1 + l2) (h1 + h2) (x * y)"
proof (cases "x = 0 \<or> y = 0")
  case True
  then show ?thesis by (auto simp: in_range_def)
next
  case False
  with assms have x: "2 powi l1 \<le> \<bar>x\<bar>" "\<bar>x\<bar> \<le> 2 powi h1"
    and y: "2 powi l2 \<le> \<bar>y\<bar>" "\<bar>y\<bar> \<le> 2 powi h2"
    by (auto simp: in_range_def)
  have "(2::real) powi l1 * 2 powi l2 \<le> \<bar>x\<bar> * \<bar>y\<bar>"
    using x(1) y(1) by (intro mult_mono) simp_all
  moreover have "\<bar>x\<bar> * \<bar>y\<bar> \<le> 2 powi h1 * 2 powi h2"
    using x(2) y(2) by (intro mult_mono) simp_all
  ultimately show ?thesis
    by (simp add: in_range_def abs_mult power_int_add)
qed

lemma in_range_div:
  assumes "in_range l1 h1 x" and "2 powi l2 \<le> \<bar>y\<bar>" and "\<bar>y\<bar> \<le> 2 powi h2"
  shows "in_range (l1 - h2) (h1 - l2) (x / y)"
proof (cases "x = 0")
  case True
  then show ?thesis by (simp add: in_range_def)
next
  case False
  with assms(1) have x: "2 powi l1 \<le> \<bar>x\<bar>" "\<bar>x\<bar> \<le> 2 powi h1"
    by (auto simp: in_range_def)
  have p: "0 < (2::real) powi l2" by simp
  with assms(2) have ypos: "0 < \<bar>y\<bar>" by linarith
  have "(2::real) powi l1 / 2 powi h2 \<le> \<bar>x\<bar> / \<bar>y\<bar>"
    using x(1) assms(3) ypos by (intro frac_le) simp_all
  moreover have "\<bar>x\<bar> / \<bar>y\<bar> \<le> 2 powi h1 / 2 powi l2"
    using x(2) assms(2) p by (intro frac_le) simp_all
  ultimately show ?thesis
    by (simp add: in_range_def power_int_diff)
qed

lemma in_range_rel:
  assumes "in_range l h x" and "rel_err p x r" and "0 \<le> p" and "p \<le> 1 / 2"
  shows "in_range (l - 1) (h + 1) r"
proof (cases "x = 0")
  case True
  with assms(2) have "r = 0" by (simp add: rel_err_zero)
  then show ?thesis by (simp add: in_range_def)
next
  case False
  with assms(1) have x: "2 powi l \<le> \<bar>x\<bar>" "\<bar>x\<bar> \<le> 2 powi h"
    by (auto simp: in_range_def)
  have "(1 / 2) * \<bar>x\<bar> \<le> (1 - p) * \<bar>x\<bar>"
    using assms(4) by (intro mult_right_mono) simp_all
  then have "\<bar>x\<bar> / 2 \<le> (1 - p) * \<bar>x\<bar>"
    by simp
  also have "\<dots> \<le> \<bar>r\<bar>"
    using assms(2) by (rule rel_err_abs_ge)
  finally have "2 powi l / 2 \<le> \<bar>r\<bar>"
    using x(1) by linarith
  moreover have "(2::real) powi (l - 1) = 2 powi l / 2"
    by (simp add: power_int_diff)
  moreover have "\<bar>r\<bar> \<le> (1 + p) * \<bar>x\<bar>"
    using assms(2) by (rule rel_err_abs_le)
  then have "\<bar>r\<bar> \<le> 2 * \<bar>x\<bar>"
    using assms(4) mult_right_mono [of "1 + p" 2 "\<bar>x\<bar>"] by simp
  then have "\<bar>r\<bar> \<le> 2 * 2 powi h"
    using x(2) by linarith
  moreover have "(2::real) powi (h + 1) = 2 * 2 powi h"
    by (simp add: power_int_add)
  ultimately show ?thesis
    by (simp add: in_range_def)
qed

lemma fl_rel:
  assumes "in_range l h x" and "- 1022 \<le> l" and "h \<le> 1022"
  shows "\<exists>r. fl x = Fin r \<and> rel_err unit_roundoff x r"
proof (cases "x = 0")
  case True
  then show ?thesis
    using unit_roundoff_bounds(1) by (simp add: fl_zero rel_err_def)
next
  case False
  with assms(1) have x: "2 powi l \<le> \<bar>x\<bar>" "\<bar>x\<bar> \<le> 2 powi h"
    by (auto simp: in_range_def)
  have "(2::real) powi h \<le> 2 powi 1022"
    using assms(3) by (intro power_int_increasing) simp_all
  also have "\<dots> < 2 powi 1023"
    by (intro power_int_strict_increasing) simp_all
  finally have "\<bar>x\<bar> < 2 powi 1023"
    using x(2) by linarith
  then obtain r where r: "fl x = Fin r"
    and err: "\<bar>r - x\<bar> \<le> 2 powi (- 53) * max \<bar>x\<bar> (2 powi (- 1022))"
    using fl_error by blast
  have "(2::real) powi (- 1022) \<le> 2 powi l"
    using assms(2) by (intro power_int_increasing) simp_all
  with x(1) have "2 powi (- 1022) \<le> \<bar>x\<bar>" by linarith
  then have "max \<bar>x\<bar> (2 powi (- 1022)) = \<bar>x\<bar>"
    by (rule max_absorb1)
  with err have "rel_err unit_roundoff x r"
    by (simp only: rel_err_def unit_roundoff_def)
  with r show ?thesis by blast
qed

text \<open>One rounded operation: the range of the result and the accumulated error.\<close>

lemma fl_step:
  assumes "in_range l h x" and "- 1022 \<le> l" and "h \<le> 1022"
    and "rel_err p z x" and "0 \<le> p" and "p + unit_roundoff + p * unit_roundoff \<le> q"
  obtains r where "fl x = Fin r" and "rel_err q z r" and "in_range (l - 1) (h + 1) r"
proof -
  obtain r where r: "fl x = Fin r" and e: "rel_err unit_roundoff x r"
    using fl_rel [OF assms(1-3)] by blast
  have u0: "0 \<le> unit_roundoff" and u1: "unit_roundoff \<le> 1 / 2"
    using unit_roundoff_bounds by simp_all
  have "rel_err (p + unit_roundoff + p * unit_roundoff) z r"
    using assms(4) e u0 by (rule rel_err_trans)
  then have "rel_err q z r"
    using assms(6) by (rule rel_err_mono)
  moreover have "in_range (l - 1) (h + 1) r"
    using assms(1) e u0 u1 by (rule in_range_rel)
  ultimately show ?thesis
    using r that by blast
qed

lemma in_range_nonzero:
  assumes "in_range l h x" and "x \<noteq> 0"
  shows "2 powi l \<le> \<bar>x\<bar>" and "\<bar>x\<bar> \<le> 2 powi h"
  using assms by (auto simp: in_range_def)

lemma in_range_abs_le: "in_range l h x \<Longrightarrow> \<bar>x\<bar> \<le> 2 powi h"
  by (auto simp: in_range_def)

lemma convex_combination_bounds:
  fixes a b x y :: real
  assumes "0 \<le> a" and "0 \<le> b" and "a + b = 1"
  shows "min x y \<le> a * x + b * y" and "a * x + b * y \<le> max x y"
proof -
  have "a * min x y \<le> a * x" and "b * min x y \<le> b * y"
    using assms(1,2) by (simp_all add: mult_left_mono)
  then have "(a + b) * min x y \<le> a * x + b * y"
    by (simp add: distrib_right)
  then show "min x y \<le> a * x + b * y"
    using assms(3) by simp
  have "a * x \<le> a * max x y" and "b * y \<le> b * max x y"
    using assms(1,2) by (simp_all add: mult_left_mono)
  then have "a * x + b * y \<le> (a + b) * max x y"
    by (simp add: distrib_right)
  then show "a * x + b * y \<le> max x y"
    using assms(3) by simp
qed

section \<open>\<open>calculate_wacc\<close> in binary64\<close>

subsection \<open>The executions used below, operation by operation\<close>

lemma wacc_f64_trace_1_4:
  "calculate_wacc_f64 (Fin 1) (Fin 4) (Fin (3602879701896397 / 2 ^ 55)) (Fin (3602879701896397 / 2 ^ 55)) (Fin 0) = Inr (Fin (7205759403792795 / 2 ^ 56))"
proof -
  have "fl (1 + 4) = Fin 5"
    by (rule fl_eqI [where e = 2 and m = 5629499534213120])
       (simp_all add: round_half_even_def Let_def power_int_minus)
  then have T: "f64_add (Fin 1) (Fin 4) = Fin 5"
    by (simp add: f64_sub_def f64_truediv_def)
  have "fl (1 / 5) = Fin (3602879701896397 / 2 ^ 54)"
    by (rule fl_eqI [where e = "- 3" and m = 7205759403792794])
       (simp_all add: round_half_even_def Let_def power_int_minus)
  then have a: "f64_truediv (Fin 1) (Fin 5) = Inr (Fin (3602879701896397 / 2 ^ 54))"
    by (simp add: f64_sub_def f64_truediv_def)
  have "fl (4 / 5) = Fin (3602879701896397 / 2 ^ 52)"
    by (rule fl_eqI [where e = "- 1" and m = 7205759403792794])
       (simp_all add: round_half_even_def Let_def power_int_minus)
  then have b: "f64_truediv (Fin 4) (Fin 5) = Inr (Fin (3602879701896397 / 2 ^ 52))"
    by (simp add: f64_sub_def f64_truediv_def)
  have "fl ((3602879701896397 / 2 ^ 54) * (3602879701896397 / 2 ^ 55)) = Fin (1441151880758559 / 2 ^ 56)"
    by (rule fl_eqI [where e = "- 6" and m = 5764607523034236])
       (simp_all add: round_half_even_def Let_def power_int_minus)
  then have A: "f64_mul (Fin (3602879701896397 / 2 ^ 54)) (Fin (3602879701896397 / 2 ^ 55)) = Fin (1441151880758559 / 2 ^ 56)"
    by (simp add: f64_sub_def f64_truediv_def)
  have "fl ((3602879701896397 / 2 ^ 52) * (3602879701896397 / 2 ^ 55)) = Fin (1441151880758559 / 2 ^ 54)"
    by (rule fl_eqI [where e = "- 4" and m = 5764607523034236])
       (simp_all add: round_half_even_def Let_def power_int_minus)
  then have P: "f64_mul (Fin (3602879701896397 / 2 ^ 52)) (Fin (3602879701896397 / 2 ^ 55)) = Fin (1441151880758559 / 2 ^ 54)"
    by (simp add: f64_sub_def f64_truediv_def)
  have "fl (1 - 0) = Fin 1"
    by (rule fl_eqI [where e = 0 and m = 4503599627370496])
       (simp_all add: round_half_even_def Let_def power_int_minus)
  then have s: "f64_sub (Fin 1) (Fin 0) = Fin 1"
    by (simp add: f64_sub_def f64_truediv_def)
  have "fl ((1441151880758559 / 2 ^ 54) * 1) = Fin (1441151880758559 / 2 ^ 54)"
    by (rule fl_eqI [where e = "- 4" and m = 5764607523034236])
       (simp_all add: round_half_even_def Let_def power_int_minus)
  then have B: "f64_mul (Fin (1441151880758559 / 2 ^ 54)) (Fin 1) = Fin (1441151880758559 / 2 ^ 54)"
    by (simp add: f64_sub_def f64_truediv_def)
  have "fl ((1441151880758559 / 2 ^ 56) + (1441151880758559 / 2 ^ 54)) = Fin (7205759403792795 / 2 ^ 56)"
    by (rule fl_eqI [where e = "- 4" and m = 7205759403792795])
       (simp_all add: round_half_even_def Let_def power_int_minus)
  then have w: "f64_add (Fin (1441151880758559 / 2 ^ 56)) (Fin (1441151880758559 / 2 ^ 54)) = Fin (7205759403792795 / 2 ^ 56)"
    by (simp add: f64_sub_def f64_truediv_def)
  show ?thesis
    by (simp only: calculate_wacc_f64_def Let_def T a b A P s B w sum.case)
qed





text \<open>
  The call of the demonstration driver, \<open>calculate_wacc(1000000, 500000, 0.10, 0.05, 0.25)\<close>,
  in binary64: it returns \<open>0.07916666666666666\<close>, the double nearest to \<open>19/240\<close>.
\<close>

lemma wacc_f64_trace_driver:
  "calculate_wacc_f64 (Fin 1000000) (Fin 500000) (Fin (3602879701896397 / 2 ^ 55)) (Fin (3602879701896397 / 2 ^ 56)) (Fin (1 / 2 ^ 2)) = Inr (Fin (1426139882000657 / 2 ^ 54))"
proof -
  have "fl (1000000 + 500000) = Fin 1500000"
    by (rule fl_eqI [where e = 20 and m = 6442450944000000])
       (simp_all add: round_half_even_def Let_def power_int_minus)
  then have T: "f64_add (Fin 1000000) (Fin 500000) = Fin 1500000"
    by (simp add: f64_sub_def f64_truediv_def)
  have "fl (1000000 / 1500000) = Fin (6004799503160661 / 2 ^ 53)"
    by (rule fl_eqI [where e = "- 1" and m = 6004799503160661])
       (simp_all add: round_half_even_def Let_def power_int_minus)
  then have a: "f64_truediv (Fin 1000000) (Fin 1500000) = Inr (Fin (6004799503160661 / 2 ^ 53))"
    by (simp add: f64_sub_def f64_truediv_def)
  have "fl (500000 / 1500000) = Fin (6004799503160661 / 2 ^ 54)"
    by (rule fl_eqI [where e = "- 2" and m = 6004799503160661])
       (simp_all add: round_half_even_def Let_def power_int_minus)
  then have b: "f64_truediv (Fin 500000) (Fin 1500000) = Inr (Fin (6004799503160661 / 2 ^ 54))"
    by (simp add: f64_sub_def f64_truediv_def)
  have "fl ((6004799503160661 / 2 ^ 53) * (3602879701896397 / 2 ^ 55)) = Fin (4803839602528529 / 2 ^ 56)"
    by (rule fl_eqI [where e = "- 4" and m = 4803839602528529])
       (simp_all add: round_half_even_def Let_def power_int_minus)
  then have A: "f64_mul (Fin (6004799503160661 / 2 ^ 53)) (Fin (3602879701896397 / 2 ^ 55)) = Fin (4803839602528529 / 2 ^ 56)"
    by (simp add: f64_sub_def f64_truediv_def)
  have "fl ((6004799503160661 / 2 ^ 54) * (3602879701896397 / 2 ^ 56)) = Fin (4803839602528529 / 2 ^ 58)"
    by (rule fl_eqI [where e = "- 6" and m = 4803839602528529])
       (simp_all add: round_half_even_def Let_def power_int_minus)
  then have P: "f64_mul (Fin (6004799503160661 / 2 ^ 54)) (Fin (3602879701896397 / 2 ^ 56)) = Fin (4803839602528529 / 2 ^ 58)"
    by (simp add: f64_sub_def f64_truediv_def)
  have "fl (1 - (1 / 2 ^ 2)) = Fin (3 / 2 ^ 2)"
    by (rule fl_eqI [where e = "- 1" and m = 6755399441055744])
       (simp_all add: round_half_even_def Let_def power_int_minus)
  then have s: "f64_sub (Fin 1) (Fin (1 / 2 ^ 2)) = Fin (3 / 2 ^ 2)"
    by (simp add: f64_sub_def f64_truediv_def)
  have "fl ((4803839602528529 / 2 ^ 58) * (3 / 2 ^ 2)) = Fin (3602879701896397 / 2 ^ 58)"
    by (rule fl_eqI [where e = "- 7" and m = 7205759403792794])
       (simp_all add: round_half_even_def Let_def power_int_minus)
  then have B: "f64_mul (Fin (4803839602528529 / 2 ^ 58)) (Fin (3 / 2 ^ 2)) = Fin (3602879701896397 / 2 ^ 58)"
    by (simp add: f64_sub_def f64_truediv_def)
  have "fl ((4803839602528529 / 2 ^ 56) + (3602879701896397 / 2 ^ 58)) = Fin (1426139882000657 / 2 ^ 54)"
    by (rule fl_eqI [where e = "- 4" and m = 5704559528002628])
       (simp_all add: round_half_even_def Let_def power_int_minus)
  then have w: "f64_add (Fin (4803839602528529 / 2 ^ 56)) (Fin (3602879701896397 / 2 ^ 58)) = Fin (1426139882000657 / 2 ^ 54)"
    by (simp add: f64_sub_def f64_truediv_def)
  show ?thesis
    by (simp only: calculate_wacc_f64_def Let_def T a b A P s B w sum.case)
qed

lemma wacc_f64_driver_nearest:
  "fl (19 / 240) = Fin (1426139882000657 / 2 ^ 54)"
  by (rule fl_eqI [where e = "- 4" and m = 5704559528002628])
     (simp_all add: round_half_even_def Let_def power_int_minus)

subsection \<open>The claims about \<open>calculate_wacc\<close>\<close>




text \<open>
  Claim C6 as the specification states it, refuted: at
  \<open>calculate_wacc(1, 4, 0.1, 0.1, 0.0)\<close> both costs are the double \<open>0.1\<close> and the code
  returns \<open>0.10000000000000002\<close>, which is above their maximum.
\<close>

theorem calculate_wacc_f64_exceeds_max:
  "calculate_wacc_f64 (Fin 1) (Fin 4) (Fin (3602879701896397 / 2 ^ 55))
       (Fin (3602879701896397 / 2 ^ 55)) (Fin 0)
     = Inr (Fin (7205759403792795 / 2 ^ 56))
   \<and> fl (1 / 10) = Fin (3602879701896397 / 2 ^ 55)
   \<and> (0::real) \<le> 1 \<and> (0::real) \<le> 4 \<and> (0::real) < 1 + 4
   \<and> max (3602879701896397 / 2 ^ 55) (3602879701896397 / 2 ^ 55 * (1 - 0))
       < (7205759403792795 / 2 ^ 56 :: real)"
proof -
  have "fl (1 / 10) = Fin (3602879701896397 / 2 ^ 55)"
    by (rule fl_eqI [where e = "- 4" and m = 7205759403792794])
       (simp_all add: round_half_even_def Let_def power_int_minus)
  moreover have "max (3602879701896397 / 2 ^ 55) (3602879701896397 / 2 ^ 55 * (1 - 0))
       < (7205759403792795 / 2 ^ 56 :: real)"
    by simp
  ultimately show ?thesis
    using wacc_f64_trace_1_4 by (simp only: simp_thms) simp
qed

text \<open>
  Claim C6, amended. For \<open>equity_value \<ge> 0\<close> and \<open>debt_value \<ge> 0\<close> with a positive sum,
  where each of \<open>equity_value\<close>, \<open>debt_value\<close>, \<open>cost_of_equity\<close>, \<open>cost_of_debt\<close> and
  \<open>1 - tax_rate\<close> is zero or of magnitude between \<open>2^-200\<close> and \<open>2^200\<close>,
  \<open>calculate_wacc\<close> returns a finite value between
  \<open>min(cost_of_equity, cost_of_debt * (1 - tax_rate)) - eps\<close> and
  \<open>max(cost_of_equity, cost_of_debt * (1 - tax_rate)) + eps\<close>, with
  \<open>eps = 2^-49 * max(|cost_of_equity|, |cost_of_debt * (1 - tax_rate)|)\<close>: the
  weighted-average bound holds up to rounding error.
\<close>

theorem calculate_wacc_f64_bounded_up_to_rounding:
  assumes nonneg: "0 \<le> equity_value" "0 \<le> debt_value"
    and pos: "0 < equity_value + debt_value"
    and rng: "in_range (- 200) 200 equity_value" "in_range (- 200) 200 debt_value"
      "in_range (- 200) 200 cost_of_equity" "in_range (- 200) 200 cost_of_debt"
      "in_range (- 200) 200 (1 - tax_rate)"
  shows "\<exists>wacc. calculate_wacc_f64 (Fin equity_value) (Fin debt_value)
                   (Fin cost_of_equity) (Fin cost_of_debt) (Fin tax_rate) = Inr (Fin wacc)
           \<and> min cost_of_equity (cost_of_debt * (1 - tax_rate))
               - 2 powi (- 49) * max \<bar>cost_of_equity\<bar> \<bar>cost_of_debt * (1 - tax_rate)\<bar> \<le> wacc
           \<and> wacc \<le> max cost_of_equity (cost_of_debt * (1 - tax_rate))
               + 2 powi (- 49) * max \<bar>cost_of_equity\<bar> \<bar>cost_of_debt * (1 - tax_rate)\<bar>"
proof -
  define u where "u = unit_roundoff"
  define S where "S = equity_value + debt_value"
  define \<alpha> where "\<alpha> = equity_value / S"
  define \<beta> where "\<beta> = debt_value / S"
  define y where "y = cost_of_debt * (1 - tax_rate)"
  define K where "K = max \<bar>cost_of_equity\<bar> \<bar>y\<bar>"
  have u0: "0 \<le> u" and u_pos: "0 < u" and u_small: "u \<le> 1 / 1024"
    and uu: "u * u \<le> u / 1024"
    using unit_roundoff_bounds unit_roundoff_sq by (simp_all add: u_def)
  have S_pos: "0 < S" using pos by (simp add: S_def)
  have ab: "0 \<le> \<alpha>" "0 \<le> \<beta>" "\<alpha> + \<beta> = 1"
    using nonneg S_pos by (simp_all add: \<alpha>_def \<beta>_def S_def add_divide_distrib [symmetric])

  \<comment> \<open>total_value\<close>
  have S_lo: "2 powi (- 200) \<le> \<bar>S\<bar>"
  proof (cases "equity_value = 0")
    case True
    with pos have "debt_value \<noteq> 0" by auto
    then have "2 powi (- 200) \<le> \<bar>debt_value\<bar>"
      using rng(2) by (rule in_range_nonzero(1) [rotated])
    then show ?thesis using nonneg True unfolding S_def by simp
  next
    case False
    then have "2 powi (- 200) \<le> \<bar>equity_value\<bar>"
      using rng(1) by (rule in_range_nonzero(1) [rotated])
    then show ?thesis using nonneg unfolding S_def by linarith
  qed
  have S_hi: "\<bar>S\<bar> \<le> 2 powi 201"
  proof -
    have "\<bar>equity_value\<bar> \<le> 2 powi 200"
      using rng(1) by (rule in_range_abs_le)
    moreover have "\<bar>debt_value\<bar> \<le> 2 powi 200"
      using rng(2) by (rule in_range_abs_le)
    ultimately have "\<bar>S\<bar> \<le> 2 powi 200 + 2 powi 200"
      unfolding S_def by linarith
    also have "\<dots> = (2::real) powi 201"
      using power_int_add [of "2::real" 200 1] by simp
    finally show ?thesis .
  qed
  have S_rng: "in_range (- 200) 201 S"
    using S_lo S_hi by (simp only: in_range_def simp_thms)
  obtain T where T: "fl S = Fin T" and T_rel: "rel_err u S T"
    and T_rng: "in_range (- 200 - 1) (201 + 1) T"
    using fl_step [OF S_rng _ _ rel_err_refl [of 0 S], of u] u0
    by (auto simp: u_def)
  have S0: "S \<noteq> 0" using S_pos by simp
  have u_half: "u \<le> 1 / 2" using u_small by simp
  have T0: "T \<noteq> 0"
    using T_rel u0 u_half S0 by (rule rel_err_divisor(2))
  have T_lo: "2 powi (- 201) \<le> \<bar>T\<bar>" and T_hi: "\<bar>T\<bar> \<le> 2 powi 202"
    using in_range_nonzero [OF T_rng T0] by simp_all
  have tot: "f64_add (Fin equity_value) (Fin debt_value) = Fin T"
    using T by (simp add: S_def)

  \<comment> \<open>equity_weight\<close>
  have "rel_err (2 * u) \<alpha> (equity_value / T)"
    unfolding \<alpha>_def using T_rel u0 u_half S0 by (rule rel_err_divisor(1))
  moreover have "in_range (- 200 - 202) (200 - (- 201)) (equity_value / T)"
    using rng(1) T_lo T_hi by (rule in_range_div)
  moreover have "2 * u + unit_roundoff + 2 * u * unit_roundoff \<le> 4 * u"
    using uu u0 by (simp add: u_def [symmetric])
  ultimately obtain a where a: "fl (equity_value / T) = Fin a" and a_rel: "rel_err (4 * u) \<alpha> a"
    and a_rng: "in_range (- 200 - 202 - 1) (200 - (- 201) + 1) a"
    using fl_step [of "- 200 - 202" "200 - (- 201)" "equity_value / T" "2 * u" \<alpha> "4 * u"] u0
    by auto
  have a_div: "f64_truediv (Fin equity_value) (Fin T) = Inr (Fin a)"
    using T0 a by (simp add: f64_truediv_def)

  \<comment> \<open>debt_weight\<close>
  have "rel_err (2 * u) \<beta> (debt_value / T)"
    unfolding \<beta>_def using T_rel u0 u_half S0 by (rule rel_err_divisor(1))
  moreover have "in_range (- 200 - 202) (200 - (- 201)) (debt_value / T)"
    using rng(2) T_lo T_hi by (rule in_range_div)
  moreover have "2 * u + unit_roundoff + 2 * u * unit_roundoff \<le> 4 * u"
    using uu u0 by (simp add: u_def [symmetric])
  ultimately obtain b where b: "fl (debt_value / T) = Fin b" and b_rel: "rel_err (4 * u) \<beta> b"
    and b_rng: "in_range (- 200 - 202 - 1) (200 - (- 201) + 1) b"
    using fl_step [of "- 200 - 202" "200 - (- 201)" "debt_value / T" "2 * u" \<beta> "4 * u"] u0
    by auto
  have b_div: "f64_truediv (Fin debt_value) (Fin T) = Inr (Fin b)"
    using T0 b by (simp add: f64_truediv_def)

  \<comment> \<open>equity_weight * cost_of_equity\<close>
  have "rel_err (4 * u + 0 + 4 * u * 0) (\<alpha> * cost_of_equity) (a * cost_of_equity)"
    using a_rel rel_err_refl [of 0 cost_of_equity] u0 by (intro rel_err_mult) simp_all
  then have "rel_err (4 * u) (\<alpha> * cost_of_equity) (a * cost_of_equity)"
    by simp
  moreover have "in_range (- 403 + - 200) (402 + 200) (a * cost_of_equity)"
    using in_range_mult [OF a_rng rng(3)] by simp
  moreover have "4 * u + unit_roundoff + 4 * u * unit_roundoff \<le> 6 * u"
    using uu u0 by (simp add: u_def [symmetric])
  ultimately obtain A where A: "fl (a * cost_of_equity) = Fin A"
    and A_rel: "rel_err (6 * u) (\<alpha> * cost_of_equity) A"
    using fl_step [of "- 403 + - 200" "402 + 200" "a * cost_of_equity" "4 * u"
                      "\<alpha> * cost_of_equity" "6 * u"] u0
    by auto
  have A_mul: "f64_mul (Fin a) (Fin cost_of_equity) = Fin A"
    using A by simp

  \<comment> \<open>debt_weight * cost_of_debt\<close>
  have "rel_err (4 * u + 0 + 4 * u * 0) (\<beta> * cost_of_debt) (b * cost_of_debt)"
    using b_rel rel_err_refl [of 0 cost_of_debt] u0 by (intro rel_err_mult) simp_all
  then have "rel_err (4 * u) (\<beta> * cost_of_debt) (b * cost_of_debt)"
    by simp
  moreover have "in_range (- 403 + - 200) (402 + 200) (b * cost_of_debt)"
    using in_range_mult [OF b_rng rng(4)] by simp
  moreover have "4 * u + unit_roundoff + 4 * u * unit_roundoff \<le> 6 * u"
    using uu u0 by (simp add: u_def [symmetric])
  ultimately obtain P where P: "fl (b * cost_of_debt) = Fin P"
    and P_rel: "rel_err (6 * u) (\<beta> * cost_of_debt) P"
    and P_rng: "in_range (- 403 + - 200 - 1) (402 + 200 + 1) P"
    using fl_step [of "- 403 + - 200" "402 + 200" "b * cost_of_debt" "4 * u"
                      "\<beta> * cost_of_debt" "6 * u"] u0
    by auto
  have P_mul: "f64_mul (Fin b) (Fin cost_of_debt) = Fin P"
    using P by simp

  \<comment> \<open>1 - tax_rate\<close>
  obtain s where s: "fl (1 - tax_rate) = Fin s" and s_rel: "rel_err u (1 - tax_rate) s"
    and s_rng: "in_range (- 200 - 1) (200 + 1) s"
    using fl_step [OF rng(5) _ _ rel_err_refl [of 0 "1 - tax_rate"], of u] u0
    by (auto simp: u_def)
  have s_sub: "f64_sub (Fin 1) (Fin tax_rate) = Fin s"
    using s by (simp add: f64_sub_def)

  \<comment> \<open>(debt_weight * cost_of_debt) * (1 - tax_rate)\<close>
  have "rel_err (6 * u + u + 6 * u * u) (\<beta> * cost_of_debt * (1 - tax_rate)) (P * s)"
    using P_rel s_rel u0 by (intro rel_err_mult) simp_all
  then have "rel_err (8 * u) (\<beta> * cost_of_debt * (1 - tax_rate)) (P * s)"
    using uu u0 by (elim rel_err_mono) simp
  moreover have "in_range (- 604 + - 201) (603 + 201) (P * s)"
    using in_range_mult [OF P_rng s_rng] by simp
  moreover have "8 * u + unit_roundoff + 8 * u * unit_roundoff \<le> 10 * u"
    using uu u0 by (simp add: u_def [symmetric])
  ultimately obtain B where B: "fl (P * s) = Fin B"
    and B_rel': "rel_err (10 * u) (\<beta> * cost_of_debt * (1 - tax_rate)) B"
    using fl_step [of "- 604 + - 201" "603 + 201" "P * s" "8 * u"
                      "\<beta> * cost_of_debt * (1 - tax_rate)" "10 * u"] u0
    by auto
  have B_mul: "f64_mul (Fin P) (Fin s) = Fin B"
    using B by simp
  have B_rel: "rel_err (10 * u) (\<beta> * y) B"
    using B_rel' by (simp add: y_def mult.assoc)

  \<comment> \<open>the sum\<close>
  define c where "c = \<alpha> * cost_of_equity + \<beta> * y"
  have c_bounds: "min cost_of_equity y \<le> c" "c \<le> max cost_of_equity y"
    unfolding c_def using ab by (rule convex_combination_bounds)+
  have ce_K: "\<bar>cost_of_equity\<bar> \<le> K" and y_K: "\<bar>y\<bar> \<le> K" and K0: "0 \<le> K"
    by (simp_all add: K_def)
  have wK: "\<alpha> * \<bar>cost_of_equity\<bar> + \<beta> * \<bar>y\<bar> \<le> K"
  proof -
    have "\<alpha> * \<bar>cost_of_equity\<bar> \<le> \<alpha> * K" and "\<beta> * \<bar>y\<bar> \<le> \<beta> * K"
      using ab ce_K y_K by (simp_all add: mult_left_mono)
    then have "\<alpha> * \<bar>cost_of_equity\<bar> + \<beta> * \<bar>y\<bar> \<le> (\<alpha> + \<beta>) * K"
      by (simp add: distrib_right)
    then show ?thesis using ab(3) by simp
  qed
  have c_abs: "\<bar>c\<bar> \<le> K"
  proof -
    have "\<bar>c\<bar> \<le> \<bar>\<alpha> * cost_of_equity\<bar> + \<bar>\<beta> * y\<bar>"
      unfolding c_def by (rule abs_triangle_ineq)
    also have "\<dots> = \<alpha> * \<bar>cost_of_equity\<bar> + \<beta> * \<bar>y\<bar>"
      using ab by (simp add: abs_mult)
    finally show ?thesis using wK by linarith
  qed
  have AB_err: "\<bar>A + B - c\<bar> \<le> 10 * u * K"
  proof -
    have "\<bar>A - \<alpha> * cost_of_equity\<bar> \<le> 6 * u * (\<alpha> * \<bar>cost_of_equity\<bar>)"
      using A_rel ab by (simp add: rel_err_def abs_mult)
    also have "\<dots> \<le> 10 * u * (\<alpha> * \<bar>cost_of_equity\<bar>)"
      using u0 ab by (intro mult_right_mono) simp_all
    finally have e1: "\<bar>A - \<alpha> * cost_of_equity\<bar> \<le> 10 * u * (\<alpha> * \<bar>cost_of_equity\<bar>)" .
    have e2: "\<bar>B - \<beta> * y\<bar> \<le> 10 * u * (\<beta> * \<bar>y\<bar>)"
      using B_rel ab by (simp add: rel_err_def abs_mult)
    have "\<bar>A + B - c\<bar> \<le> \<bar>A - \<alpha> * cost_of_equity\<bar> + \<bar>B - \<beta> * y\<bar>"
      unfolding c_def by linarith
    also have "\<dots> \<le> 10 * u * (\<alpha> * \<bar>cost_of_equity\<bar> + \<beta> * \<bar>y\<bar>)"
      using e1 e2 by (simp add: distrib_left)
    also have "\<dots> \<le> 10 * u * K"
      using wK u0 by (intro mult_left_mono) simp_all
    finally show ?thesis .
  qed
  have uK: "0 \<le> u * K" using u0 K0 by simp
  have uK_le: "u * K \<le> K / 1024"
    using mult_right_mono [OF u_small K0] by simp
  have AB_abs: "\<bar>A + B\<bar> \<le> 2 * K"
    using AB_err c_abs uK_le by linarith
  have y_rng: "in_range (- 200 + - 200) (200 + 200) y"
    unfolding y_def using rng(4,5) by (rule in_range_mult)
  have K_rng: "in_range (- 400) 400 K"
  proof -
    have "in_range (- 400) 400 cost_of_equity"
      using rng(3) by (rule in_range_widen) simp_all
    then have "in_range (- 400) 400 \<bar>cost_of_equity\<bar>"
      by (simp add: in_range_def)
    moreover have "in_range (- 400) 400 \<bar>y\<bar>"
      using y_rng by (simp add: in_range_def)
    ultimately show ?thesis
      unfolding K_def max_def by simp
  qed
  have "\<bar>A + B\<bar> < 2 powi 1023"
  proof -
    have "K \<le> 2 powi 400"
      using in_range_abs_le [OF K_rng] K0 by simp
    then have "\<bar>A + B\<bar> \<le> 2 * 2 powi 400"
      using AB_abs by linarith
    also have "\<dots> = (2::real) powi 401"
      using power_int_add [of "2::real" 400 1] by simp
    also have "\<dots> < 2 powi 1023"
      by (intro power_int_strict_increasing) simp_all
    finally show ?thesis .
  qed
  then obtain w where w: "fl (A + B) = Fin w"
    and w_err: "\<bar>w - (A + B)\<bar> \<le> 2 powi (- 53) * max \<bar>A + B\<bar> (2 powi (- 1022))"
    using fl_error by blast
  have w_add: "f64_add (Fin A) (Fin B) = Fin w"
    using w by simp
  have w_err': "\<bar>w - (A + B)\<bar> \<le> 2 * (u * K)"
  proof (cases "K = 0")
    case True
    with AB_abs have "A + B = 0" by simp
    with w have "w = 0" by (simp add: fl_zero)
    with \<open>A + B = 0\<close> True show ?thesis by simp
  next
    case False
    then have "2 powi (- 400) \<le> \<bar>K\<bar>"
      using K_rng by (rule in_range_nonzero(1) [rotated])
    moreover have "(2::real) powi (- 1022) \<le> 2 powi (- 400)"
      by (intro power_int_increasing) simp_all
    ultimately have "2 powi (- 1022) \<le> 2 * K"
      using K0 by linarith
    with AB_abs have "max \<bar>A + B\<bar> (2 powi (- 1022)) \<le> 2 * K"
      by (simp only: max.bounded_iff simp_thms)
    then have "2 powi (- 53) * max \<bar>A + B\<bar> (2 powi (- 1022)) \<le> 2 powi (- 53) * (2 * K)"
      by (intro mult_left_mono) simp_all
    with w_err show ?thesis
      by (simp only: u_def unit_roundoff_def)
  qed
  have total: "\<bar>w - c\<bar> \<le> 16 * (u * K)"
    using w_err' AB_err uK by linarith
  have "16 * u = 2 powi (- 49)"
    by (simp add: u_def unit_roundoff_def power_int_minus)
  then have tol: "16 * (u * K) = 2 powi (- 49) * K"
    by (simp only: mult.assoc [symmetric])
  have res: "calculate_wacc_f64 (Fin equity_value) (Fin debt_value)
               (Fin cost_of_equity) (Fin cost_of_debt) (Fin tax_rate) = Inr (Fin w)"
    by (simp only: calculate_wacc_f64_def Let_def tot a_div b_div A_mul P_mul s_sub B_mul w_add
          sum.case)
  have "min cost_of_equity y - 2 powi (- 49) * K \<le> w"
    and "w \<le> max cost_of_equity y + 2 powi (- 49) * K"
    using total c_bounds unfolding tol by linarith+
  with res show ?thesis
    unfolding y_def K_def y_def by blast
qed

theorem calculate_wacc_f64_bounded_up_to_rounding_witness:
  "(0::real) \<le> 1 \<and> (0::real) \<le> 4 \<and> (0::real) < 1 + 4
   \<and> in_range (- 200) 200 1 \<and> in_range (- 200) 200 4
   \<and> in_range (- 200) 200 (3602879701896397 / 2 ^ 55)
   \<and> in_range (- 200) 200 (1 - 0)
   \<and> calculate_wacc_f64 (Fin 1) (Fin 4) (Fin (3602879701896397 / 2 ^ 55))
         (Fin (3602879701896397 / 2 ^ 55)) (Fin 0)
       = Inr (Fin (7205759403792795 / 2 ^ 56))
   \<and> min (3602879701896397 / 2 ^ 55) (3602879701896397 / 2 ^ 55 * (1 - 0))
         - 2 powi (- 49) * max \<bar>3602879701896397 / 2 ^ 55\<bar> \<bar>3602879701896397 / 2 ^ 55 * (1 - 0)\<bar>
       \<le> (7205759403792795 / 2 ^ 56 :: real)
   \<and> (7205759403792795 / 2 ^ 56 :: real)
       \<le> max (3602879701896397 / 2 ^ 55) (3602879701896397 / 2 ^ 55 * (1 - 0))
         + 2 powi (- 49) * max \<bar>3602879701896397 / 2 ^ 55\<bar> \<bar>3602879701896397 / 2 ^ 55 * (1 - 0)\<bar>"
proof -
  have h1: "(0::real) \<le> 1" and h2: "(0::real) \<le> 4" and h3: "(0::real) < 1 + 4"
    by simp_all
  have r1: "in_range (- 200) 200 1" and r2: "in_range (- 200) 200 4"
    and r3: "in_range (- 200) 200 (3602879701896397 / 2 ^ 55)"
    and r4: "in_range (- 200) 200 (1 - 0)"
    by (simp_all add: in_range_def power_int_minus)
  obtain w where w: "calculate_wacc_f64 (Fin 1) (Fin 4) (Fin (3602879701896397 / 2 ^ 55))
         (Fin (3602879701896397 / 2 ^ 55)) (Fin 0) = Inr (Fin w)"
    and lo: "min (3602879701896397 / 2 ^ 55) (3602879701896397 / 2 ^ 55 * (1 - 0))
         - 2 powi (- 49) * max \<bar>3602879701896397 / 2 ^ 55\<bar> \<bar>3602879701896397 / 2 ^ 55 * (1 - 0)\<bar>
       \<le> w"
    and hi: "w \<le> max (3602879701896397 / 2 ^ 55) (3602879701896397 / 2 ^ 55 * (1 - 0))
         + 2 powi (- 49) * max \<bar>3602879701896397 / 2 ^ 55\<bar> \<bar>3602879701896397 / 2 ^ 55 * (1 - 0)\<bar>"
    using calculate_wacc_f64_bounded_up_to_rounding [OF h1 h2 h3 r1 r2 r3 r3 r4] by blast
  from w have "w = 7205759403792795 / 2 ^ 56"
    by (simp only: wacc_f64_trace_1_4 sum.inject npfloat.inject)
  with w lo hi h1 h2 h3 r1 r2 r3 r4 show ?thesis
    by (simp only: simp_thms)
qed




section \<open>Properties of the historical growth analysis\<close>

text \<open>
  Claim C3 as the specification states it, refuted: on the single-element series \<open>[5]\<close>
  the growth-rate array is empty, the mean, the median and the standard deviation
  evaluate to \<open>nan\<close>, and \<^verbatim>\<open>np.min\<close> raises numpy's \<open>ValueError\<close>; the failure is not
  the typed insufficient-data error.
\<close>

theorem historical_growth_analysis_single_element:
  "historical_growth_analysis [5] None = Inl ValueError
   \<and> historical_growth_analysis [5] None \<noteq> Inl InsufficientData"
  by (simp add: historical_growth_analysis_def np_array_def)

text \<open>
  Claim C3, amended. Called with fewer than two data points, \<open>historical_growth_analysis\<close>
  fails with the \<open>ValueError\<close> that numpy's minimum raises on the empty growth-rate array,
  whatever \<open>periods\<close> is.
\<close>

theorem historical_growth_analysis_too_short:
  assumes "length historical_data < 2"
  shows "historical_growth_analysis historical_data periods = Inl ValueError"
proof (cases historical_data)
  case Nil
  then show ?thesis
    by (simp add: historical_growth_analysis_def np_array_def)
next
  case (Cons x xs)
  with assms have "xs = []" by simp
  with Cons show ?thesis
    by (simp add: historical_growth_analysis_def np_array_def)
qed

theorem historical_growth_analysis_too_short_witness:
  "length [5 :: real] < 2 \<and> historical_growth_analysis [5] (Some 3) = Inl ValueError"
proof -
  have h: "length [5 :: real] < 2" by simp
  from historical_growth_analysis_too_short [OF h, of "Some 3"] h
  show ?thesis by simp
qed

text \<open>
  Claim C4. The result of \<open>historical_growth_analysis\<close> does not depend on \<open>periods\<close>:
  for every series, any two values of the parameter (given or omitted) give the same
  result.
\<close>

theorem historical_growth_analysis_ignores_periods:
  "historical_growth_analysis historical_data p1 = historical_growth_analysis historical_data p2"
  by (simp add: historical_growth_analysis_def)

end
